theory Spec2Isabelle
  imports Complex_Main
begin

section \<open>Fedora Tagger backend library (taggerapi/taggerlib)\<close>

text \<open>
  The library holds four request handlers, \<open>add_tag\<close>, \<open>add_rating\<close>, \<open>add_vote\<close> and
  \<open>statistics\<close>, which work on a relational store through the classes of the module
  \<open>model\<close>. The handlers are embedded from \<open>taggerapi/taggerlib/__init__.py\<close>. The module
  \<open>model\<close> is not among the sources: its tables and class methods are modelled from the
  specification, and each such definition says so.

  A handler takes the session and returns its outcome together with the session as the
  handler leaves it: either the returned value or the exception raised. The session is
  returned in both cases, since what a handler did before raising stays in the session.
\<close>

subsection \<open>Tables\<close>

text \<open>
  Modelled from the spec: the rows of the module \<open>model\<close>, which is missing. Section 3 of
  the specification gives the fields: a package has an id, a unique name and a summary; a
  user is identified by the originating network address; a tag belongs to a package and
  has a label and the counters \<open>like\<close> and \<open>dislike\<close>; a vote belongs to a user and a tag
  and has a boolean polarity; a rating belongs to a user and a package and has a numeric
  value. Counters are Python integers, hence \<open>int\<close>: a decrement can take them below zero.
\<close>

record package =
  pkg_id :: nat
  pkg_name :: string
  pkg_summary :: string

record fasuser =
  user_id :: nat
  user_ipaddress :: string

record tag =
  tag_id :: nat
  tag_package_id :: nat
  tag_label :: string
  tag_like :: int
  tag_dislike :: int

record vote =
  vote_id :: nat
  vote_user_id :: nat
  vote_tag_id :: nat
  vote_like :: bool

record rating =
  rating_id :: nat
  rating_package_id :: nat
  rating_user_id :: nat
  rating_value :: int

text \<open>The session: one list of rows per table, in insertion order.\<close>

record session =
  packages :: "package list"
  users :: "fasuser list"
  tags :: "tag list"
  votes :: "vote list"
  ratings :: "rating list"

text \<open>
  The exceptions the handlers meet. \<open>NoResultFound\<close> is the store's signal that a lookup
  found no row (\<open>sqlalchemy.orm.exc.NoResultFound\<close>, imported by the library);
  \<open>TaggerapiException\<close> is the library's own exception class and carries its message.
\<close>

datatype error = NoResultFound | TaggerapiException string

text \<open>
  \<open>except SQLAlchemyError\<close> catches the store's exceptions, \<open>NoResultFound\<close> among them,
  and not the library's own class, which derives from \<open>Exception\<close>.
\<close>

fun is_SQLAlchemyError :: "error \<Rightarrow> bool" where
  "is_SQLAlchemyError NoResultFound = True"
| "is_SQLAlchemyError (TaggerapiException m) = False"

subsection \<open>The store interface\<close>

text \<open>
  The lookups of the module \<open>model\<close> go through a table in insertion order and take the
  first row that matches; the specification describes them for stores in which at most
  one row matches.
\<close>

text \<open>
  Modelled from the spec: the primary key the store gives a new row. The module \<open>model\<close>
  and the schema are missing; a new row gets an id above every id of its table.
\<close>

definition next_id :: "nat list \<Rightarrow> nat" where
  "next_id ids = Suc (fold max ids 0)"

text \<open>
  Modelled from the spec: \<open>model.Package.by_name\<close>, which is missing. Section 4.1:
  "resolve Package by name -- fails with NotFound if absent".
\<close>

definition Package_by_name :: "session \<Rightarrow> string \<Rightarrow> error + package" where
  "Package_by_name s pkgname =
     (case find (\<lambda>p. pkg_name p = pkgname) (packages s) of
        None \<Rightarrow> Inl NoResultFound
      | Some p \<Rightarrow> Inr p)"

text \<open>
  Modelled from the spec: \<open>model.FASUser.get_or_create\<close>, which is missing. Section 3:
  a user is "identified by originating network address; created on first contact
  (get or create), otherwise reused".
\<close>

definition FASUser_get_or_create :: "session \<Rightarrow> string \<Rightarrow> fasuser \<times> session" where
  "FASUser_get_or_create s ipaddress =
     (case find (\<lambda>u. user_ipaddress u = ipaddress) (users s) of
        Some u \<Rightarrow> (u, s)
      | None \<Rightarrow>
          (let u = \<lparr>user_id = next_id (map user_id (users s)), user_ipaddress = ipaddress\<rparr>
           in (u, s\<lparr>users := users s @ [u]\<rparr>)))"

text \<open>
  Modelled from the spec: \<open>model.Tag.get\<close>, which is missing. Section 4.1: "resolve
  existing Tag for (package, label)"; the library catches \<open>NoResultFound\<close> where none
  exists.
\<close>

definition Tag_get :: "session \<Rightarrow> nat \<Rightarrow> string \<Rightarrow> error + tag" where
  "Tag_get s package_id label =
     (case find (\<lambda>t. tag_package_id t = package_id \<and> tag_label t = label) (tags s) of
        None \<Rightarrow> Inl NoResultFound
      | Some t \<Rightarrow> Inr t)"

text \<open>
  Modelled from the spec: \<open>model.Vote.get\<close>, which is missing. Section 4.3: "if a Vote
  already exists for (user, tag)", and otherwise "no existing vote -- signaled by a lookup
  failure".
\<close>

definition Vote_get :: "session \<Rightarrow> nat \<Rightarrow> nat \<Rightarrow> error + vote" where
  "Vote_get s uid tid =
     (case find (\<lambda>v. vote_user_id v = uid \<and> vote_tag_id v = tid) (votes s) of
        None \<Rightarrow> Inl NoResultFound
      | Some v \<Rightarrow> Inr v)"

text \<open>
  Modelled from the spec: the constructor \<open>model.Tag(package_id, label)\<close> followed by
  \<open>session.add\<close> and \<open>session.flush\<close>. The class is missing; section 4.1 says a tag that
  did not exist is created "with like = 1 implicitly", and section 8 that the new tag has
  \<open>like == 1\<close> and \<open>dislike == 0\<close>: the defaults of the two columns.
\<close>

definition Tag_create :: "session \<Rightarrow> nat \<Rightarrow> string \<Rightarrow> tag \<times> session" where
  "Tag_create s package_id label =
     (let t = \<lparr>tag_id = next_id (map tag_id (tags s)), tag_package_id = package_id,
                tag_label = label, tag_like = 1, tag_dislike = 0\<rparr>
      in (t, s\<lparr>tags := tags s @ [t]\<rparr>))"

text \<open>
  Flushing a changed object writes its row back: the row with the object's primary key
  takes the object's fields.
\<close>

definition Tag_flush :: "session \<Rightarrow> tag \<Rightarrow> session" where
  "Tag_flush s t = s\<lparr>tags := map (\<lambda>r. if tag_id r = tag_id t then t else r) (tags s)\<rparr>"

definition Vote_flush :: "session \<Rightarrow> vote \<Rightarrow> session" where
  "Vote_flush s v = s\<lparr>votes := map (\<lambda>r. if vote_id r = vote_id v then v else r) (votes s)\<rparr>"

text \<open>
  Modelled from the spec: the constructors \<open>model.Vote\<close> and \<open>model.Rating\<close>, which are
  missing, followed by \<open>session.add\<close> and \<open>session.flush\<close>. The store takes every new row:
  section 4.1 has repeated calls of \<open>add_tag\<close> add votes of one user on one tag, and
  section 3 allows several ratings of one user on one package.
\<close>

definition Vote_create :: "session \<Rightarrow> nat \<Rightarrow> nat \<Rightarrow> bool \<Rightarrow> vote \<times> session" where
  "Vote_create s uid tid like =
     (let v = \<lparr>vote_id = next_id (map vote_id (votes s)), vote_user_id = uid,
                vote_tag_id = tid, vote_like = like\<rparr>
      in (v, s\<lparr>votes := votes s @ [v]\<rparr>))"

definition Rating_create :: "session \<Rightarrow> nat \<Rightarrow> nat \<Rightarrow> int \<Rightarrow> rating \<times> session" where
  "Rating_create s package_id uid r =
     (let x = \<lparr>rating_id = next_id (map rating_id (ratings s)), rating_package_id = package_id,
                rating_user_id = uid, rating_value = r\<rparr>
      in (x, s\<lparr>ratings := ratings s @ [x]\<rparr>))"

subsection \<open>The messages\<close>

text \<open>Python's \<open>'%s' % n\<close> for an integer: its decimal digits, with a sign when negative.\<close>

fun digits :: "nat \<Rightarrow> string" where
  "digits n = (if n < 10 then [char_of (48 + n)] else digits (n div 10) @ [char_of (48 + n mod 10)])"

declare digits.simps [simp del]

definition str_int :: "int \<Rightarrow> string" where
  "str_int i = (if i < 0 then CHR ''-'' # digits (nat (- i)) else digits (nat i))"

definition tag_added :: "string \<Rightarrow> string \<Rightarrow> string" where
  \<open>tag_added tag pkgname = ''Tag "'' @ tag @ ''" added to the package "'' @ pkgname @ ''"''\<close>

definition rating_added :: "int \<Rightarrow> string \<Rightarrow> string" where
  \<open>rating_added r pkgname =
     ''Rating "'' @ str_int r @ ''" added to the package "'' @ pkgname @ ''"''\<close>

definition vote_not_changed :: "string \<Rightarrow> string \<Rightarrow> string" where
  \<open>vote_not_changed tag pkgname =
     ''Your vote on the tag "'' @ tag @ ''" for the package "'' @ pkgname @ ''" did not changed''\<close>

definition vote_done :: "string \<Rightarrow> string \<Rightarrow> string \<Rightarrow> string" where
  \<open>vote_done verb tag pkgname =
     ''Vote '' @ verb @ '' on the tag "'' @ tag @ ''" of the package "'' @ pkgname @ ''"''\<close>

definition tag_not_found :: string where
  "tag_not_found = ''This tag could not be found associated to this package''"

subsection \<open>The handlers\<close>

type_synonym 'a outcome = "(error + 'a) \<times> session"

text \<open>
  \<open>add_tag\<close>: the package lookup is outside every \<open>try\<close>, so its exception leaves the
  handler as it is. The tag lookup is inside \<open>try ... except NoResultFound\<close>.
\<close>

definition add_tag :: "session \<Rightarrow> string \<Rightarrow> string \<Rightarrow> string \<Rightarrow> string outcome" where
  "add_tag s pkgname tag ipaddress =
     (case Package_by_name s pkgname of
        Inl e \<Rightarrow> (Inl e, s)
      | Inr package \<Rightarrow>
          (case FASUser_get_or_create s ipaddress of (user, s1) \<Rightarrow>
             (case (case Tag_get s1 (pkg_id package) tag of
                      Inr t \<Rightarrow>
                        (let tagobj = t\<lparr>tag_like := tag_like t + 1\<rparr>
                         in Inr (tagobj, Tag_flush s1 tagobj))
                    | Inl e \<Rightarrow>
                        (if e = NoResultFound then Inr (Tag_create s1 (pkg_id package) tag)
                         else Inl e)) of
                Inl e \<Rightarrow> (Inl e, s1)
              | Inr (tagobj, s2) \<Rightarrow>
                  (case Vote_create s2 (user_id user) (tag_id tagobj) True of (voteobj, s3) \<Rightarrow>
                     (Inr (tag_added tag pkgname), s3)))))"

definition add_rating :: "session \<Rightarrow> string \<Rightarrow> int \<Rightarrow> string \<Rightarrow> string outcome" where
  "add_rating s pkgname r ipaddress =
     (case Package_by_name s pkgname of
        Inl e \<Rightarrow> (Inl e, s)
      | Inr package \<Rightarrow>
          (case FASUser_get_or_create s ipaddress of (user, s1) \<Rightarrow>
             (case Rating_create s1 (pkg_id package) (user_id user) r of (ratingobj, s2) \<Rightarrow>
                (Inr (rating_added r pkgname), s2))))"

text \<open>
  \<open>add_vote\<close>: the user is resolved first. The first \<open>try\<close> holds both lookups and turns
  a store exception into the library's own. The second \<open>try\<close> holds the vote lookup and
  the flip; a store exception there means the vote is created.
\<close>

definition add_vote :: "session \<Rightarrow> string \<Rightarrow> string \<Rightarrow> bool \<Rightarrow> string \<Rightarrow> string outcome" where
  "add_vote s pkgname tag vote ipaddress =
     (case FASUser_get_or_create s ipaddress of (user, s1) \<Rightarrow>
        (case (case Package_by_name s1 pkgname of
                 Inl e \<Rightarrow> Inl e
               | Inr package \<Rightarrow> Tag_get s1 (pkg_id package) tag) of
           Inl err \<Rightarrow>
             (if is_SQLAlchemyError err then (Inl (TaggerapiException tag_not_found), s1)
              else (Inl err, s1))
         | Inr tagobj \<Rightarrow>
             (case Vote_get s1 (user_id user) (tag_id tagobj) of
                Inr voteobj \<Rightarrow>
                  (if vote_like voteobj = vote then (Inr (vote_not_changed tag pkgname), s1)
                   else
                     (let tagobj' =
                            (if vote_like voteobj
                             then tagobj\<lparr>tag_like := tag_like tagobj - 1,
                                         tag_dislike := tag_dislike tagobj + 1\<rparr>
                             else tagobj\<lparr>tag_dislike := tag_dislike tagobj - 1,
                                         tag_like := tag_like tagobj + 1\<rparr>);
                          voteobj' = voteobj\<lparr>vote_like := vote\<rparr>
                      in (Inr (vote_done ''changed'' tag pkgname),
                          Vote_flush (Tag_flush s1 tagobj') voteobj')))
              | Inl err \<Rightarrow>
                  (if is_SQLAlchemyError err then
                     (case Vote_create s1 (user_id user) (tag_id tagobj) vote of (voteobj, s2) \<Rightarrow>
                        (let tagobj' =
                               (if vote then tagobj\<lparr>tag_like := tag_like tagobj + 1\<rparr>
                                else tagobj\<lparr>tag_dislike := tag_dislike tagobj + 1\<rparr>)
                         in (Inr (vote_done ''added'' tag pkgname), Tag_flush s2 tagobj')))
                   else (Inl err, s1)))))"

subsection \<open>Statistics\<close>

text \<open>
  A Python number as \<open>statistics\<close> returns it: an integer, or the float that a division
  by \<open>float(n)\<close> gives. The float quotient is modelled by the exact quotient of the two
  integers; the rounding of the machine's doubles is outside the model.
\<close>

datatype number = PyInt int | PyFloat real

text \<open>
  Python's \<open>dict(pairs)\<close>, as the list of its items: a key that comes again keeps its
  place and takes the later value.
\<close>

fun dict_setitem :: "('k \<times> 'v) list \<Rightarrow> 'k \<Rightarrow> 'v \<Rightarrow> ('k \<times> 'v) list" where
  "dict_setitem [] k v = [(k, v)]"
| "dict_setitem ((k', v') # d) k v =
     (if k' = k then (k, v) # d else (k', v') # dict_setitem d k v)"

definition dict :: "('k \<times> 'v) list \<Rightarrow> ('k \<times> 'v) list" where
  "dict kvs = foldl (\<lambda>d (k, v). dict_setitem d k v) [] kvs"

text \<open>
  Modelled from the spec: \<open>model.Package.all\<close>, the relationship \<open>Package.tags\<close> and
  \<open>model.Tag.count_unique_label\<close>, which are missing. Section 4.4: "read all Packages
  and, for each, the count of Tags attached to it", and "total distinct tag labels across
  the whole store".
\<close>

definition Package_all :: "session \<Rightarrow> package list" where
  "Package_all s = packages s"

definition Package_tags :: "session \<Rightarrow> package \<Rightarrow> tag list" where
  "Package_tags s p = filter (\<lambda>t. tag_package_id t = pkg_id p) (tags s)"

definition Tag_count_unique_label :: "session \<Rightarrow> nat" where
  "Tag_count_unique_label s = length (remdups (map tag_label (tags s)))"

definition statistics :: "session \<Rightarrow> (string \<times> (string \<times> number) list) list" where
  "statistics s =
     (let pkgs = Package_all s;
          n_tags = int (Tag_count_unique_label s);
          raw_data = dict (map (\<lambda>p. (pkg_name p, int (length (Package_tags s p)))) pkgs);
          n_packs = int (length raw_data);
          no_tags = int (length (filter (\<lambda>v. v = 0) (map snd raw_data)));
          with_tags = n_packs - no_tags;
          tags_per_package =
            (if n_packs \<noteq> 0
             then PyFloat (real_of_int (sum_list (map (\<lambda>p. int (length (Package_tags s p))) pkgs))
                           / real_of_int n_packs)
             else PyInt 0);
          tags_per_package_no_zeroes =
            (if with_tags \<noteq> 0
             then PyFloat (real_of_int (sum_list (map (\<lambda>p. int (length (Package_tags s p))) pkgs))
                           / real_of_int with_tags)
             else PyInt 0)
      in [(''summary'',
           [(''total_packages'', PyInt n_packs),
            (''total_unique_tags'', PyInt n_tags),
            (''no_tags'', PyInt no_tags),
            (''with_tags'', PyInt with_tags),
            (''tags_per_package'', tags_per_package),
            (''tags_per_package_no_zeroes'', tags_per_package_no_zeroes)])])"

subsection \<open>The counter invariant\<close>

text \<open>The number of votes of one polarity on one tag.\<close>

definition vote_count :: "vote list \<Rightarrow> nat \<Rightarrow> bool \<Rightarrow> int" where
  "vote_count vs tid pol =
     int (length (filter (\<lambda>v. vote_tag_id v = tid \<and> vote_like v = pol) vs))"

text \<open>Section 3: the counters of every tag equal the numbers of its votes of each polarity.\<close>

definition counters_inv :: "session \<Rightarrow> bool" where
  "counters_inv s \<longleftrightarrow>
     (\<forall>t\<in>set (tags s).
        tag_like t = vote_count (votes s) (tag_id t) True \<and>
        tag_dislike t = vote_count (votes s) (tag_id t) False)"

text \<open>
  What the relational store guarantees of the vote table: the primary key of a vote is
  unique, and the tag a vote refers to exists.
\<close>

definition store_wf :: "session \<Rightarrow> bool" where
  "store_wf s \<longleftrightarrow>
     distinct (map vote_id (votes s)) \<and>
     (\<forall>v\<in>set (votes s). vote_tag_id v \<in> set (map tag_id (tags s)))"

subsection \<open>Example stores\<close>

text \<open>The store that \<open>createdb.py --with-dev-data\<close> builds: the one package \<open>mattd\<close>.\<close>

definition dev_data :: session where
  "dev_data =
     \<lparr>packages = [\<lparr>pkg_id = 1, pkg_name = ''mattd'', pkg_summary = ''Matt Daemon''\<rparr>],
      users = [], tags = [], votes = [], ratings = []\<rparr>"

text \<open>The same store after the user at 10.0.0.1 has tagged \<open>mattd\<close> with \<open>daemon\<close>.\<close>

definition tagged :: session where
  "tagged =
     \<lparr>packages = [\<lparr>pkg_id = 1, pkg_name = ''mattd'', pkg_summary = ''Matt Daemon''\<rparr>],
      users = [\<lparr>user_id = 1, user_ipaddress = ''10.0.0.1''\<rparr>],
      tags = [\<lparr>tag_id = 1, tag_package_id = 1, tag_label = ''daemon'',
               tag_like = 1, tag_dislike = 0\<rparr>],
      votes = [\<lparr>vote_id = 1, vote_user_id = 1, vote_tag_id = 1, vote_like = True\<rparr>],
      ratings = []\<rparr>"

text \<open>Two packages: \<open>A\<close> with three tags and \<open>B\<close> with none.\<close>

definition three_and_none :: session where
  "three_and_none =
     \<lparr>packages = [\<lparr>pkg_id = 1, pkg_name = ''A'', pkg_summary = ''first''\<rparr>,
                  \<lparr>pkg_id = 2, pkg_name = ''B'', pkg_summary = ''second''\<rparr>],
      users = [],
      tags = [\<lparr>tag_id = 1, tag_package_id = 1, tag_label = ''x'', tag_like = 0, tag_dislike = 0\<rparr>,
              \<lparr>tag_id = 2, tag_package_id = 1, tag_label = ''y'', tag_like = 0, tag_dislike = 0\<rparr>,
              \<lparr>tag_id = 3, tag_package_id = 1, tag_label = ''z'', tag_like = 0, tag_dislike = 0\<rparr>],
      votes = [], ratings = []\<rparr>"

text \<open>A store with no rows at all.\<close>

definition empty_store :: session where
  "empty_store = \<lparr>packages = [], users = [], tags = [], votes = [], ratings = []\<rparr>"

section \<open>Properties\<close>

subsection \<open>Lookups and keys\<close>

lemma find_Some_set: "find P xs = Some x \<Longrightarrow> x \<in> set xs \<and> P x"
  by (induction xs) (auto split: if_splits)

lemma find_append_if:
  "find P (xs @ ys) = (case find P xs of None \<Rightarrow> find P ys | Some x \<Rightarrow> Some x)"
  by (induction xs) auto

lemma find_map_key:
  "find P xs = Some t \<Longrightarrow> P t' \<Longrightarrow>
     find P (map (\<lambda>r. if f r = f t then t' else r) xs) = Some t'"
  by (induction xs) (auto split: if_splits)

lemma next_id_greater: "i \<in> set ids \<Longrightarrow> i < next_id ids"
proof -
  assume "i \<in> set ids"
  then have "i \<le> Max (set (0 # ids))" by simp
  also have "Max (set (0 # ids)) = fold max ids 0" by (rule Max.set_eq_fold)
  finally show ?thesis by (simp add: next_id_def)
qed

lemma next_id_fresh: "next_id ids \<notin> set ids"
  using next_id_greater [of "next_id ids" ids] by auto

lemma key_update_single:
  "distinct (map f xs) \<Longrightarrow> x \<in> set xs \<Longrightarrow>
     \<exists>i<length xs. xs ! i = x \<and> map (\<lambda>r. if f r = f x then y else r) xs = xs[i := y]"
proof (induction xs)
  case Nil
  then show ?case by simp
next
  case (Cons a xs)
  show ?case
  proof (cases "a = x")
    case True
    with Cons.prems have "f x \<notin> f ` set xs" by simp
    then have "\<forall>r\<in>set xs. f r \<noteq> f x" by (metis imageI)
    then have "map (\<lambda>r. if f r = f x then y else r) xs = xs"
      by (simp add: map_idI)
    with True have "(a # xs) ! 0 = x \<and> map (\<lambda>r. if f r = f x then y else r) (a # xs) = (a # xs)[0 := y]"
      by simp
    then show ?thesis by blast
  next
    case False
    with Cons.prems have x: "x \<in> set xs" and d: "distinct (map f xs)" and ne: "f a \<noteq> f x"
      by auto
    from Cons.IH [OF d x] obtain i where i: "i < length xs" "xs ! i = x"
      "map (\<lambda>r. if f r = f x then y else r) xs = xs[i := y]" by blast
    then have "Suc i < length (a # xs) \<and> (a # xs) ! Suc i = x \<and>
       map (\<lambda>r. if f r = f x then y else r) (a # xs) = (a # xs)[Suc i := y]"
      using ne by simp
    then show ?thesis by blast
  qed
qed

lemma key_map_same:
  "f y = f x \<Longrightarrow> map f (map (\<lambda>r. if f r = f x then y else r) xs) = map f xs"
  by (induction xs) auto

lemma goc_tables [simp]:
  "packages (snd (FASUser_get_or_create s ip)) = packages s"
  "tags (snd (FASUser_get_or_create s ip)) = tags s"
  "votes (snd (FASUser_get_or_create s ip)) = votes s"
  "ratings (snd (FASUser_get_or_create s ip)) = ratings s"
  by (simp_all add: FASUser_get_or_create_def Let_def split: option.splits)

lemma goc_found:
  "find (\<lambda>u. user_ipaddress u = ip) (users s) = Some u \<Longrightarrow> FASUser_get_or_create s ip = (u, s)"
  by (simp add: FASUser_get_or_create_def)

lemma goc_again:
  assumes "FASUser_get_or_create s ip = (u, s1)" and "users s2 = users s1"
  shows "FASUser_get_or_create s2 ip = (u, s2)"
proof (cases "find (\<lambda>u. user_ipaddress u = ip) (users s)")
  case None
  with assms(1) have u: "u = \<lparr>user_id = next_id (map user_id (users s)), user_ipaddress = ip\<rparr>"
    and s1: "users s1 = users s @ [u]"
    by (auto simp: FASUser_get_or_create_def Let_def)
  have "find (\<lambda>u. user_ipaddress u = ip) (users s2) = Some u"
    using None assms(2) s1 u by (simp add: find_append_if)
  then show ?thesis by (simp add: FASUser_get_or_create_def)
next
  case (Some a)
  with assms(1) have "u = a" "s1 = s"
    by (auto simp: FASUser_get_or_create_def)
  with Some assms(2) show ?thesis by (simp add: FASUser_get_or_create_def)
qed

lemma Package_by_name_cong:
  "packages s' = packages s \<Longrightarrow> Package_by_name s' n = Package_by_name s n"
  by (simp add: Package_by_name_def)

lemma Tag_get_cong: "tags s' = tags s \<Longrightarrow> Tag_get s' p l = Tag_get s p l"
  by (simp add: Tag_get_def)

lemma Vote_get_cong: "votes s' = votes s \<Longrightarrow> Vote_get s' u t = Vote_get s u t"
  by (simp add: Vote_get_def)

lemma Package_by_name_Inl:
  "Package_by_name s n = Inl e \<longleftrightarrow>
     e = NoResultFound \<and> (\<forall>p\<in>set (packages s). pkg_name p \<noteq> n)"
  by (auto simp: Package_by_name_def find_None_iff split: option.splits dest: find_Some_set)

lemma Package_by_name_Inr:
  "Package_by_name s n = Inr p \<Longrightarrow> p \<in> set (packages s) \<and> pkg_name p = n"
  by (auto simp: Package_by_name_def split: option.splits dest: find_Some_set)

lemma Tag_get_Inl:
  "Tag_get s pid l = Inl e \<longleftrightarrow>
     e = NoResultFound \<and> (\<forall>t\<in>set (tags s). \<not> (tag_package_id t = pid \<and> tag_label t = l))"
  by (auto simp: Tag_get_def find_None_iff split: option.splits dest: find_Some_set)

lemma Tag_get_Inr:
  "Tag_get s pid l = Inr t \<Longrightarrow> t \<in> set (tags s) \<and> tag_package_id t = pid \<and> tag_label t = l"
  by (auto simp: Tag_get_def split: option.splits dest: find_Some_set)

lemma Vote_get_Inl:
  "Vote_get s u t = Inl e \<Longrightarrow> e = NoResultFound"
  by (auto simp: Vote_get_def split: option.splits)

lemma Vote_get_Inr:
  "Vote_get s u t = Inr v \<Longrightarrow> v \<in> set (votes s) \<and> vote_user_id v = u \<and> vote_tag_id v = t"
  by (auto simp: Vote_get_def split: option.splits dest: find_Some_set)

lemma Tag_get_after_flush:
  assumes "Tag_get s pid label = Inr t"
    and "tags s' = map (\<lambda>r. if tag_id r = tag_id t then t\<lparr>tag_like := k\<rparr> else r) (tags s)"
  shows "Tag_get s' pid label = Inr (t\<lparr>tag_like := k\<rparr>)"
proof -
  let ?P = "\<lambda>t. tag_package_id t = pid \<and> tag_label t = label"
  from assms(1) have f: "find ?P (tags s) = Some t"
    by (simp add: Tag_get_def split: option.splits)
  then have "?P t" by (auto dest: find_Some_set)
  then have "?P (t\<lparr>tag_like := k\<rparr>)" by simp
  from find_map_key [of ?P, OF f this, of tag_id]
  show ?thesis by (simp add: Tag_get_def assms(2))
qed

subsection \<open>The handlers, branch by branch\<close>

lemma add_rating_step:
  assumes "Package_by_name s pkgname = Inr package"
  shows "add_rating s pkgname r ipaddress =
           (Inr (rating_added r pkgname),
            (snd (FASUser_get_or_create s ipaddress))
              \<lparr>ratings := ratings s @
                 [\<lparr>rating_id = next_id (map rating_id (ratings s)),
                   rating_package_id = pkg_id package,
                   rating_user_id = user_id (fst (FASUser_get_or_create s ipaddress)),
                   rating_value = r\<rparr>]\<rparr>)"
proof -
  obtain user s1 where goc: "FASUser_get_or_create s ipaddress = (user, s1)"
    by (cases "FASUser_get_or_create s ipaddress")
  have s1: "s1 = snd (FASUser_get_or_create s ipaddress)" using goc by simp
  have r1: "ratings s1 = ratings s" unfolding s1 by simp
  show ?thesis
    unfolding add_rating_def using assms goc
    by (simp add: Rating_create_def Let_def r1)
qed

lemma add_tag_step:
  assumes "Package_by_name s pkgname = Inr package"
    and "Tag_get s (pkg_id package) tag = Inr tagobj"
  shows "add_tag s pkgname tag ipaddress =
           (Inr (tag_added tag pkgname),
            (snd (FASUser_get_or_create s ipaddress))
              \<lparr>tags := map (\<lambda>r. if tag_id r = tag_id tagobj
                                  then tagobj\<lparr>tag_like := tag_like tagobj + 1\<rparr> else r) (tags s),
               votes := votes s @
                 [\<lparr>vote_id = next_id (map vote_id (votes s)),
                   vote_user_id = user_id (fst (FASUser_get_or_create s ipaddress)),
                   vote_tag_id = tag_id tagobj, vote_like = True\<rparr>]\<rparr>)"
proof -
  obtain user s1 where goc: "FASUser_get_or_create s ipaddress = (user, s1)"
    by (cases "FASUser_get_or_create s ipaddress")
  have s1: "s1 = snd (FASUser_get_or_create s ipaddress)" using goc by simp
  have t1: "tags s1 = tags s" and v1: "votes s1 = votes s" unfolding s1 by simp_all
  have tg: "Tag_get s1 (pkg_id package) tag = Inr tagobj"
    using assms(2) Tag_get_cong [OF t1] by simp
  show ?thesis
    unfolding add_tag_def using assms(1) goc tg
    by (simp add: Tag_flush_def Vote_create_def Let_def t1 v1)
qed

text \<open>What \<open>add_tag\<close> does to the tag and vote tables, branch by branch.\<close>

lemma add_tag_shape:
  fixes s pkgname tag ipaddress
  defines "s' \<equiv> snd (add_tag s pkgname tag ipaddress)"
  shows "(tags s' = tags s \<and> votes s' = votes s)
       \<or> (\<exists>t v. t \<in> set (tags s) \<and>
             tags s' = map (\<lambda>r. if tag_id r = tag_id t then t\<lparr>tag_like := tag_like t + 1\<rparr> else r) (tags s) \<and>
             votes s' = votes s @ [v] \<and> vote_tag_id v = tag_id t \<and> vote_like v \<and>
             vote_id v = next_id (map vote_id (votes s)))
       \<or> (\<exists>t v. tags s' = tags s @ [t] \<and> votes s' = votes s @ [v] \<and>
             tag_id t = next_id (map tag_id (tags s)) \<and> tag_like t = 1 \<and> tag_dislike t = 0 \<and>
             vote_tag_id v = tag_id t \<and> vote_like v \<and>
             vote_id v = next_id (map vote_id (votes s)))"
proof -
  obtain user s1 where goc: "FASUser_get_or_create s ipaddress = (user, s1)"
    by (cases "FASUser_get_or_create s ipaddress")
  have s1: "s1 = snd (FASUser_get_or_create s ipaddress)" using goc by simp
  have t1: "tags s1 = tags s" and v1: "votes s1 = votes s" unfolding s1 by simp_all
  show ?thesis
  proof (cases "Package_by_name s pkgname")
    case (Inl e)
    then have "s' = s" by (simp add: s'_def add_tag_def)
    then show ?thesis by simp
  next
    case (Inr package)
    show ?thesis
    proof (cases "Tag_get s1 (pkg_id package) tag")
      case (Inl e)
      then have e: "e = NoResultFound" by (simp add: Tag_get_Inl)
      have "tags s' = tags s @ [\<lparr>tag_id = next_id (map tag_id (tags s)), tag_package_id = pkg_id package,
                   tag_label = tag, tag_like = 1, tag_dislike = 0\<rparr>]"
        "votes s' = votes s @ [\<lparr>vote_id = next_id (map vote_id (votes s)),
                   vote_user_id = user_id user,
                   vote_tag_id = next_id (map tag_id (tags s)), vote_like = True\<rparr>]"
        unfolding s'_def add_tag_def using Inr goc Inl e
        by (simp_all add: Tag_create_def Vote_create_def Let_def t1 v1)
      then show ?thesis by simp
    next
      case (Inr t)
      then have tin: "t \<in> set (tags s)" using Tag_get_Inr [of s1] t1 by simp
      have "tags s' = map (\<lambda>r. if tag_id r = tag_id t then t\<lparr>tag_like := tag_like t + 1\<rparr> else r) (tags s)"
        "votes s' = votes s @ [\<lparr>vote_id = next_id (map vote_id (votes s)),
                   vote_user_id = user_id user, vote_tag_id = tag_id t, vote_like = True\<rparr>]"
        unfolding s'_def add_tag_def using \<open>Package_by_name s pkgname = Inr package\<close> goc Inr
        by (simp_all add: Tag_flush_def Vote_create_def Let_def t1 v1)
      with tin show ?thesis by force
    qed
  qed
qed

text \<open>What \<open>add_vote\<close> does to the tag and vote tables, branch by branch.\<close>

lemma add_vote_shape:
  fixes s pkgname tag vote ipaddress
  defines "s' \<equiv> snd (add_vote s pkgname tag vote ipaddress)"
  shows "(tags s' = tags s \<and> votes s' = votes s)
       \<or> (\<exists>t v. t \<in> set (tags s) \<and> v \<in> set (votes s) \<and> vote_tag_id v = tag_id t \<and>
             vote = (\<not> vote_like v) \<and>
             tags s' = map (\<lambda>r. if tag_id r = tag_id t
                                 then (if vote_like v
                                       then t\<lparr>tag_like := tag_like t - 1, tag_dislike := tag_dislike t + 1\<rparr>
                                       else t\<lparr>tag_dislike := tag_dislike t - 1, tag_like := tag_like t + 1\<rparr>)
                                 else r) (tags s) \<and>
             votes s' = map (\<lambda>r. if vote_id r = vote_id v then v\<lparr>vote_like := \<not> vote_like v\<rparr> else r)
                          (votes s))
       \<or> (\<exists>t v. t \<in> set (tags s) \<and>
             tags s' = map (\<lambda>r. if tag_id r = tag_id t
                                 then (if vote then t\<lparr>tag_like := tag_like t + 1\<rparr>
                                       else t\<lparr>tag_dislike := tag_dislike t + 1\<rparr>)
                                 else r) (tags s) \<and>
             votes s' = votes s @ [v] \<and> vote_tag_id v = tag_id t \<and> vote_like v = vote \<and>
             vote_id v = next_id (map vote_id (votes s)))"
proof -
  obtain user s1 where goc: "FASUser_get_or_create s ipaddress = (user, s1)"
    by (cases "FASUser_get_or_create s ipaddress")
  have s1: "s1 = snd (FASUser_get_or_create s ipaddress)" using goc by simp
  have t1: "tags s1 = tags s" and v1: "votes s1 = votes s" unfolding s1 by simp_all
  let ?lk = "case Package_by_name s1 pkgname of Inl e \<Rightarrow> Inl e
             | Inr package \<Rightarrow> Tag_get s1 (pkg_id package) tag"
  show ?thesis
  proof (cases ?lk)
    case (Inl err)
    then have "s' = s1"
      unfolding s'_def add_vote_def using goc by simp
    then show ?thesis using t1 v1 by simp
  next
    case (Inr t)
    then have tin: "t \<in> set (tags s)"
      using Tag_get_Inr [of s1] t1 by (auto split: sum.splits)
    show ?thesis
    proof (cases "Vote_get s1 (user_id user) (tag_id t)")
      case (Inl err)
      then have err: "err = NoResultFound" by (rule Vote_get_Inl)
      have "tags s' = map (\<lambda>r. if tag_id r = tag_id t
                                 then (if vote then t\<lparr>tag_like := tag_like t + 1\<rparr>
                                       else t\<lparr>tag_dislike := tag_dislike t + 1\<rparr>)
                                 else r) (tags s)"
        "votes s' = votes s @ [\<lparr>vote_id = next_id (map vote_id (votes s)),
                   vote_user_id = user_id user, vote_tag_id = tag_id t, vote_like = vote\<rparr>]"
        unfolding s'_def add_vote_def using goc Inr Inl err
        by (simp_all add: Tag_flush_def Vote_create_def Let_def t1 v1)
      with tin show ?thesis by force
    next
      case vt: (Inr v)
      then have vin: "v \<in> set (votes s)" and vt_id: "vote_tag_id v = tag_id t"
        using Vote_get_Inr [of s1] v1 by auto
      show ?thesis
      proof (cases "vote_like v = vote")
        case True
        then have "s' = s1"
          unfolding s'_def add_vote_def using goc Inr vt by simp
        then show ?thesis using t1 v1 by simp
      next
        case False
        then have nv: "vote = (\<not> vote_like v)" by auto
        have "tags s' = map (\<lambda>r. if tag_id r = tag_id t
                                 then (if vote_like v
                                       then t\<lparr>tag_like := tag_like t - 1, tag_dislike := tag_dislike t + 1\<rparr>
                                       else t\<lparr>tag_dislike := tag_dislike t - 1, tag_like := tag_like t + 1\<rparr>)
                                 else r) (tags s)"
          "votes s' = map (\<lambda>r. if vote_id r = vote_id v then v\<lparr>vote_like := \<not> vote_like v\<rparr> else r)
                          (votes s)"
          unfolding s'_def add_vote_def using goc Inr vt False nv
          by (simp_all add: Tag_flush_def Vote_flush_def Let_def t1 v1)
        with tin vin vt_id nv show ?thesis by blast
      qed
    qed
  qed
qed

subsection \<open>Counting votes\<close>

lemma vote_count_append:
  "vote_count (vs @ [v]) tid pol =
     vote_count vs tid pol + (if vote_tag_id v = tid \<and> vote_like v = pol then 1 else 0)"
  by (simp add: vote_count_def)

lemma vote_count_nonneg: "0 \<le> vote_count vs tid pol"
  by (simp add: vote_count_def)

lemma vote_count_none:
  "\<forall>v\<in>set vs. vote_tag_id v \<noteq> tid \<Longrightarrow> vote_count vs tid pol = 0"
  by (simp add: vote_count_def)

lemma vote_count_member:
  "v \<in> set vs \<Longrightarrow> vote_tag_id v = tid \<Longrightarrow> vote_like v = pol \<Longrightarrow> 1 \<le> vote_count vs tid pol"
proof -
  assume "v \<in> set vs" "vote_tag_id v = tid" "vote_like v = pol"
  then have "v \<in> set (filter (\<lambda>v. vote_tag_id v = tid \<and> vote_like v = pol) vs)" by simp
  then have "filter (\<lambda>v. vote_tag_id v = tid \<and> vote_like v = pol) vs \<noteq> []"
    by (metis empty_iff empty_set)
  then show ?thesis by (simp add: vote_count_def Suc_le_eq)
qed

lemma vote_count_update:
  assumes "i < length vs"
  shows "vote_count (vs[i := w]) tid pol =
           vote_count vs tid pol
           - (if vote_tag_id (vs ! i) = tid \<and> vote_like (vs ! i) = pol then 1 else 0)
           + (if vote_tag_id w = tid \<and> vote_like w = pol then 1 else 0)"
proof -
  have a: "vs = take i vs @ (vs ! i) # drop (Suc i) vs"
    using assms by (rule id_take_nth_drop)
  have b: "vs[i := w] = take i vs @ w # drop (Suc i) vs"
    using assms by (rule upd_conv_take_nth_drop)
  have "vote_count (take i vs @ (vs ! i) # drop (Suc i) vs) tid pol =
          vote_count (take i vs) tid pol + vote_count (drop (Suc i) vs) tid pol
          + (if vote_tag_id (vs ! i) = tid \<and> vote_like (vs ! i) = pol then 1 else 0)"
    by (simp add: vote_count_def)
  moreover have "vote_count (take i vs @ w # drop (Suc i) vs) tid pol =
          vote_count (take i vs) tid pol + vote_count (drop (Suc i) vs) tid pol
          + (if vote_tag_id w = tid \<and> vote_like w = pol then 1 else 0)"
    by (simp add: vote_count_def)
  ultimately show ?thesis using a b by simp
qed

text \<open>A vote is appended for a tag that is there, and the tag's matching counter goes up.\<close>

lemma inv_vote_added:
  assumes inv: "counters_inv s"
    and tin: "t \<in> set (tags s)"
    and tags': "tags s' = map (\<lambda>r. if tag_id r = tag_id t then t' else r) (tags s)"
    and votes': "votes s' = votes s @ [v]"
    and v: "vote_tag_id v = tag_id t"
    and t': "tag_id t' = tag_id t"
      "tag_like t' = tag_like t + (if vote_like v then 1 else 0)"
      "tag_dislike t' = tag_dislike t + (if vote_like v then 0 else 1)"
  shows "counters_inv s'"
  unfolding counters_inv_def
proof
  fix r' assume "r' \<in> set (tags s')"
  then obtain r where r: "r \<in> set (tags s)" "r' = (if tag_id r = tag_id t then t' else r)"
    unfolding tags' by auto
  from inv tin r(1) have it: "tag_like t = vote_count (votes s) (tag_id t) True"
      "tag_dislike t = vote_count (votes s) (tag_id t) False"
    and ir: "tag_like r = vote_count (votes s) (tag_id r) True"
      "tag_dislike r = vote_count (votes s) (tag_id r) False"
    by (auto simp: counters_inv_def)
  show "tag_like r' = vote_count (votes s') (tag_id r') True \<and>
        tag_dislike r' = vote_count (votes s') (tag_id r') False"
  proof (cases "tag_id r = tag_id t")
    case True
    then show ?thesis using r(2) it t' v by (simp add: votes' vote_count_append)
  next
    case False
    then show ?thesis using r(2) ir v by (simp add: votes' vote_count_append)
  qed
qed

text \<open>A vote that is there changes its polarity, and the tag's counters follow.\<close>

lemma inv_vote_flipped:
  assumes inv: "counters_inv s"
    and dist: "distinct (map vote_id (votes s))"
    and tin: "t \<in> set (tags s)"
    and vin: "v \<in> set (votes s)"
    and tags': "tags s' = map (\<lambda>r. if tag_id r = tag_id t then t' else r) (tags s)"
    and votes': "votes s' = map (\<lambda>r. if vote_id r = vote_id v then v\<lparr>vote_like := \<not> vote_like v\<rparr> else r) (votes s)"
    and v: "vote_tag_id v = tag_id t"
    and t': "tag_id t' = tag_id t"
      "tag_like t' = tag_like t + (if vote_like v then - 1 else 1)"
      "tag_dislike t' = tag_dislike t + (if vote_like v then 1 else - 1)"
  shows "counters_inv s'"
  unfolding counters_inv_def
proof
  fix r' assume "r' \<in> set (tags s')"
  then obtain r where r: "r \<in> set (tags s)" "r' = (if tag_id r = tag_id t then t' else r)"
    unfolding tags' by auto
  from inv tin r(1) have it: "tag_like t = vote_count (votes s) (tag_id t) True"
      "tag_dislike t = vote_count (votes s) (tag_id t) False"
    and ir: "tag_like r = vote_count (votes s) (tag_id r) True"
      "tag_dislike r = vote_count (votes s) (tag_id r) False"
    by (auto simp: counters_inv_def)
  from key_update_single [OF dist vin, of "v\<lparr>vote_like := \<not> vote_like v\<rparr>"]
  obtain i where i: "i < length (votes s)" "votes s ! i = v"
    "votes s' = (votes s)[i := v\<lparr>vote_like := \<not> vote_like v\<rparr>]"
    unfolding votes' by auto
  have vc: "\<And>tid pol. vote_count (votes s') tid pol =
      vote_count (votes s) tid pol
      - (if vote_tag_id v = tid \<and> vote_like v = pol then 1 else 0)
      + (if vote_tag_id v = tid \<and> (\<not> vote_like v) = pol then 1 else 0)"
    unfolding i(3) using vote_count_update [OF i(1)] i(2) by simp
  show "tag_like r' = vote_count (votes s') (tag_id r') True \<and>
        tag_dislike r' = vote_count (votes s') (tag_id r') False"
  proof (cases "tag_id r = tag_id t")
    case True
    then show ?thesis using r(2) it t' v by (simp add: vc)
  next
    case False
    then show ?thesis using r(2) ir v by (simp add: vc)
  qed
qed

text \<open>A tag is created with its first vote.\<close>

lemma inv_tag_created:
  assumes inv: "counters_inv s"
    and fk: "\<forall>v\<in>set (votes s). vote_tag_id v \<in> set (map tag_id (tags s))"
    and tags': "tags s' = tags s @ [t]"
    and votes': "votes s' = votes s @ [v]"
    and t: "tag_id t = next_id (map tag_id (tags s))" "tag_like t = 1" "tag_dislike t = 0"
    and v: "vote_tag_id v = tag_id t" "vote_like v"
  shows "counters_inv s'"
  unfolding counters_inv_def
proof
  fix r assume "r \<in> set (tags s')"
  then consider "r \<in> set (tags s)" | "r = t" unfolding tags' by auto
  then show "tag_like r = vote_count (votes s') (tag_id r) True \<and>
        tag_dislike r = vote_count (votes s') (tag_id r) False"
  proof cases
    case 1
    then have "tag_id r \<in> set (map tag_id (tags s))" by simp
    then have "tag_id r \<noteq> tag_id t" using next_id_fresh [of "map tag_id (tags s)"] t(1) by metis
    moreover from inv 1 have "tag_like r = vote_count (votes s) (tag_id r) True"
      "tag_dislike r = vote_count (votes s) (tag_id r) False"
      by (auto simp: counters_inv_def)
    ultimately show ?thesis using v by (simp add: votes' vote_count_append)
  next
    case 2
    have "\<forall>w\<in>set (votes s). vote_tag_id w \<noteq> tag_id t"
      using fk next_id_fresh [of "map tag_id (tags s)"] t(1) by metis
    then have "\<And>pol. vote_count (votes s) (tag_id t) pol = 0"
      by (rule vote_count_none)
    then show ?thesis using 2 t v by (simp add: votes' vote_count_append)
  qed
qed

lemma wf_vote_added:
  assumes wf: "store_wf s"
    and tin: "t \<in> set (tags s)"
    and tags': "tags s' = map (\<lambda>r. if tag_id r = tag_id t then t' else r) (tags s)"
    and votes': "votes s' = votes s @ [v]"
    and v: "vote_tag_id v = tag_id t" "vote_id v = next_id (map vote_id (votes s))"
    and t': "tag_id t' = tag_id t"
  shows "store_wf s'"
proof -
  have ids: "map tag_id (tags s') = map tag_id (tags s)"
    unfolding tags' using key_map_same [of tag_id t' t "tags s"] t' by simp
  have "vote_id v \<notin> set (map vote_id (votes s))"
    unfolding v(2) by (rule next_id_fresh)
  then have "distinct (map vote_id (votes s'))"
    using wf by (simp add: votes' store_wf_def)
  moreover have "\<forall>w\<in>set (votes s'). vote_tag_id w \<in> set (map tag_id (tags s'))"
    unfolding ids using wf tin v(1) by (auto simp: votes' store_wf_def)
  ultimately show ?thesis by (simp add: store_wf_def)
qed

lemma wf_vote_flipped:
  assumes wf: "store_wf s"
    and vin: "v \<in> set (votes s)"
    and tags': "tags s' = map (\<lambda>r. if tag_id r = tag_id (t::tag) then t' else r) (tags s)"
    and votes': "votes s' = map (\<lambda>r. if vote_id r = vote_id v then v\<lparr>vote_like := b\<rparr> else r) (votes s)"
    and t': "tag_id t' = tag_id t"
  shows "store_wf s'"
proof -
  have ids: "map tag_id (tags s') = map tag_id (tags s)"
    unfolding tags' using key_map_same [of tag_id t' t "tags s"] t' by simp
  have vids: "map vote_id (votes s') = map vote_id (votes s)"
    unfolding votes' using key_map_same [of vote_id "v\<lparr>vote_like := b\<rparr>" v "votes s"] by simp
  have "\<forall>w\<in>set (votes s'). vote_tag_id w \<in> set (map tag_id (tags s'))"
    unfolding ids using wf vin by (auto simp: votes' store_wf_def)
  then show ?thesis using wf by (simp add: store_wf_def vids)
qed

lemma wf_tag_created:
  assumes wf: "store_wf s"
    and tags': "tags s' = tags s @ [t]"
    and votes': "votes s' = votes s @ [v]"
    and v: "vote_tag_id v = tag_id t" "vote_id v = next_id (map vote_id (votes s))"
  shows "store_wf s'"
proof -
  have "vote_id v \<notin> set (map vote_id (votes s))"
    unfolding v(2) by (rule next_id_fresh)
  then have "distinct (map vote_id (votes s'))"
    using wf by (simp add: votes' store_wf_def)
  moreover have "\<forall>w\<in>set (votes s'). vote_tag_id w \<in> set (map tag_id (tags s'))"
    using wf v(1) by (auto simp: votes' tags' store_wf_def)
  ultimately show ?thesis by (simp add: store_wf_def)
qed

lemma add_tag_inv:
  assumes "store_wf s" and "counters_inv s"
  shows "counters_inv (snd (add_tag s pkgname tag ipaddress)) \<and>
         store_wf (snd (add_tag s pkgname tag ipaddress))"
proof -
  let ?s' = "snd (add_tag s pkgname tag ipaddress)"
  from add_tag_shape [of s pkgname tag ipaddress]
  consider "tags ?s' = tags s \<and> votes ?s' = votes s"
    | t v where "t \<in> set (tags s)"
        "tags ?s' = map (\<lambda>r. if tag_id r = tag_id t then t\<lparr>tag_like := tag_like t + 1\<rparr> else r) (tags s)"
        "votes ?s' = votes s @ [v]" "vote_tag_id v = tag_id t" "vote_like v"
        "vote_id v = next_id (map vote_id (votes s))"
    | t v where "tags ?s' = tags s @ [t]" "votes ?s' = votes s @ [v]"
        "tag_id t = next_id (map tag_id (tags s))" "tag_like t = 1" "tag_dislike t = 0"
        "vote_tag_id v = tag_id t" "vote_like v"
        "vote_id v = next_id (map vote_id (votes s))"
    by blast
  then show ?thesis
  proof cases
    case 1
    then show ?thesis using assms by (simp add: counters_inv_def store_wf_def)
  next
    case 2
    have "counters_inv ?s'"
      by (rule inv_vote_added [OF assms(2) 2(1) 2(2) 2(3) 2(4)]) (simp_all add: 2(5))
    moreover have "store_wf ?s'"
      by (rule wf_vote_added [OF assms(1) 2(1) 2(2) 2(3) 2(4) 2(6)]) simp
    ultimately show ?thesis ..
  next
    case 3
    have fk: "\<forall>v\<in>set (votes s). vote_tag_id v \<in> set (map tag_id (tags s))"
      using assms(1) by (simp add: store_wf_def)
    have "counters_inv ?s'"
      by (rule inv_tag_created [OF assms(2) fk 3(1) 3(2) 3(3) 3(4) 3(5) 3(6) 3(7)])
    moreover have "store_wf ?s'"
      by (rule wf_tag_created [OF assms(1) 3(1) 3(2) 3(6) 3(8)])
    ultimately show ?thesis ..
  qed
qed

lemma add_vote_inv:
  assumes "store_wf s" and "counters_inv s"
  shows "counters_inv (snd (add_vote s pkgname tag vote ipaddress)) \<and>
         store_wf (snd (add_vote s pkgname tag vote ipaddress))"
proof -
  let ?s' = "snd (add_vote s pkgname tag vote ipaddress)"
  have dist: "distinct (map vote_id (votes s))"
    using assms(1) by (simp add: store_wf_def)
  from add_vote_shape [of s pkgname tag vote ipaddress]
  consider "tags ?s' = tags s \<and> votes ?s' = votes s"
    | t v where "t \<in> set (tags s)" "v \<in> set (votes s)" "vote_tag_id v = tag_id t"
        "tags ?s' = map (\<lambda>r. if tag_id r = tag_id t
                                 then (if vote_like v
                                       then t\<lparr>tag_like := tag_like t - 1, tag_dislike := tag_dislike t + 1\<rparr>
                                       else t\<lparr>tag_dislike := tag_dislike t - 1, tag_like := tag_like t + 1\<rparr>)
                                 else r) (tags s)"
        "votes ?s' = map (\<lambda>r. if vote_id r = vote_id v then v\<lparr>vote_like := \<not> vote_like v\<rparr> else r)
                          (votes s)"
    | t v where "t \<in> set (tags s)"
        "tags ?s' = map (\<lambda>r. if tag_id r = tag_id t
                                 then (if vote then t\<lparr>tag_like := tag_like t + 1\<rparr>
                                       else t\<lparr>tag_dislike := tag_dislike t + 1\<rparr>)
                                 else r) (tags s)"
        "votes ?s' = votes s @ [v]" "vote_tag_id v = tag_id t" "vote_like v = vote"
        "vote_id v = next_id (map vote_id (votes s))"
    by blast
  then show ?thesis
  proof cases
    case 1
    then show ?thesis using assms by (simp add: counters_inv_def store_wf_def)
  next
    case 2
    have "counters_inv ?s'"
      by (rule inv_vote_flipped [OF assms(2) dist 2(1) 2(2) 2(4) 2(5) 2(3)]) simp_all
    moreover have "store_wf ?s'"
      by (rule wf_vote_flipped [OF assms(1) 2(2) 2(4) 2(5)]) simp
    ultimately show ?thesis ..
  next
    case 3
    have "counters_inv ?s'"
      by (rule inv_vote_added [OF assms(2) 3(1) 3(2) 3(3) 3(4)]) (simp_all add: 3(5))
    moreover have "store_wf ?s'"
      by (rule wf_vote_added [OF assms(1) 3(1) 3(2) 3(3) 3(4) 3(6)]) simp
    ultimately show ?thesis ..
  qed
qed

subsection \<open>The counters follow the votes\<close>

text \<open>
  C1. In a store where the like counter of every tag equals the number of like votes on
  that tag, and the dislike counter the number of dislike votes, the same holds after
  \<open>add_tag\<close> and after \<open>add_vote\<close>, whatever their arguments and whichever branch they
  take: each moves a counter by as much as it changes the vote rows of that polarity. The
  store's guarantees on the vote table (unique primary keys, votes that refer to tags that
  exist) are kept as well.
\<close>

theorem counters_preserved:
  assumes "store_wf s" and "counters_inv s"
  shows "counters_inv (snd (add_tag s pkgname tag ipaddress))
       \<and> store_wf (snd (add_tag s pkgname tag ipaddress))
       \<and> counters_inv (snd (add_vote s pkgname tag vote ipaddress))
       \<and> store_wf (snd (add_vote s pkgname tag vote ipaddress))"
  using add_tag_inv [OF assms] add_vote_inv [OF assms] by simp

theorem counters_preserved_witness:
  "counters_inv (snd (add_tag tagged ''mattd'' ''daemon'' ''10.0.0.1''))
   \<and> counters_inv (snd (add_vote tagged ''mattd'' ''daemon'' False ''10.0.0.1''))"
proof -
  have "store_wf tagged" "counters_inv tagged"
    by (simp_all add: store_wf_def counters_inv_def vote_count_def tagged_def)
  from counters_preserved [OF this] show ?thesis by simp
qed

subsection \<open>Changing a vote\<close>

text \<open>
  C2. Where the requesting user is in the store, the package and the tag resolve, and the
  vote found for that user and tag has the other polarity, \<open>add_vote\<close> returns the
  message "Vote changed on the tag ... of the package ...", with the tag and the package
  name in double quotes, and changes exactly one tag row and one vote row: the tag's counter of
  the old polarity goes down by 1 and that of the new polarity up by 1, and the vote row
  takes the new polarity. The vote table keeps its length, so no vote row is created.
  Primary keys are unique, as the store guarantees.
\<close>

theorem add_vote_flip:
  assumes "find (\<lambda>u. user_ipaddress u = ipaddress) (users s) = Some user"
    and "Package_by_name s pkgname = Inr package"
    and "Tag_get s (pkg_id package) tag = Inr tagobj"
    and "Vote_get s (user_id user) (tag_id tagobj) = Inr voteobj"
    and "vote_like voteobj \<noteq> vote"
    and "distinct (map tag_id (tags s))" and "distinct (map vote_id (votes s))"
  shows \<open>\<exists>i j. i < length (tags s) \<and> tags s ! i = tagobj \<and> j < length (votes s) \<and> votes s ! j = voteobj \<and>
           add_vote s pkgname tag vote ipaddress =
             (Inr (''Vote changed on the tag "'' @ tag @ ''" of the package "'' @ pkgname @ ''"''),
              s\<lparr>tags := (tags s)[i := (if vote_like voteobj
                     then tagobj\<lparr>tag_like := tag_like tagobj - 1, tag_dislike := tag_dislike tagobj + 1\<rparr>
                     else tagobj\<lparr>tag_dislike := tag_dislike tagobj - 1, tag_like := tag_like tagobj + 1\<rparr>)],
                votes := (votes s)[j := voteobj\<lparr>vote_like := vote\<rparr>]\<rparr>)\<close>
proof -
  let ?t' = "if vote_like voteobj
             then tagobj\<lparr>tag_like := tag_like tagobj - 1, tag_dislike := tag_dislike tagobj + 1\<rparr>
             else tagobj\<lparr>tag_dislike := tag_dislike tagobj - 1, tag_like := tag_like tagobj + 1\<rparr>"
  let ?v' = "voteobj\<lparr>vote_like := vote\<rparr>"
  have tin: "tagobj \<in> set (tags s)" using assms(3) by (simp add: Tag_get_Inr)
  have vin: "voteobj \<in> set (votes s)" using assms(4) by (simp add: Vote_get_Inr)
  have tid: "tag_id ?t' = tag_id tagobj" by simp
  have vid: "vote_id ?v' = vote_id voteobj" by simp
  from key_update_single [OF assms(6) tin, of ?t'] obtain i where
    i: "i < length (tags s)" "tags s ! i = tagobj"
       "map (\<lambda>r. if tag_id r = tag_id tagobj then ?t' else r) (tags s) = (tags s)[i := ?t']"
    by blast
  from key_update_single [OF assms(7) vin, of ?v'] obtain j where
    j: "j < length (votes s)" "votes s ! j = voteobj"
       "map (\<lambda>r. if vote_id r = vote_id voteobj then ?v' else r) (votes s) = (votes s)[j := ?v']"
    by blast
  have fl: "Vote_flush (Tag_flush s ?t') ?v' = s\<lparr>tags := (tags s)[i := ?t'], votes := (votes s)[j := ?v']\<rparr>"
    unfolding Vote_flush_def Tag_flush_def vid tid using i(3) j(3) by simp
  have "add_vote s pkgname tag vote ipaddress =
          (Inr (vote_done ''changed'' tag pkgname), Vote_flush (Tag_flush s ?t') ?v')"
    unfolding add_vote_def using assms(1-5) by (auto simp: goc_found Let_def)
  moreover have \<open>vote_done ''changed'' tag pkgname = ''Vote changed on the tag "'' @ tag @ ''" of the package "'' @ pkgname @ ''"''\<close>
    by (simp add: vote_done_def)
  ultimately have \<open>add_vote s pkgname tag vote ipaddress =
          (Inr (''Vote changed on the tag "'' @ tag @ ''" of the package "'' @ pkgname @ ''"''),
           s\<lparr>tags := (tags s)[i := ?t'], votes := (votes s)[j := ?v']\<rparr>)\<close>
    using fl by simp
  with i(1,2) j(1,2) show ?thesis by blast
qed

theorem add_vote_flip_witness:
  \<open>add_vote tagged ''mattd'' ''daemon'' False ''10.0.0.1'' =
     (Inr ''Vote changed on the tag "daemon" of the package "mattd"'',
      tagged\<lparr>tags := [\<lparr>tag_id = 1, tag_package_id = 1, tag_label = ''daemon'',
                         tag_like = 0, tag_dislike = 1\<rparr>],
             votes := [\<lparr>vote_id = 1, vote_user_id = 1, vote_tag_id = 1, vote_like = False\<rparr>]\<rparr>)\<close>
  using add_vote_flip [of "''10.0.0.1''" tagged "\<lparr>user_id = 1, user_ipaddress = ''10.0.0.1''\<rparr>"
      "''mattd''" "\<lparr>pkg_id = 1, pkg_name = ''mattd'', pkg_summary = ''Matt Daemon''\<rparr>"
      "''daemon''" "\<lparr>tag_id = 1, tag_package_id = 1, tag_label = ''daemon'', tag_like = 1, tag_dislike = 0\<rparr>"
      "\<lparr>vote_id = 1, vote_user_id = 1, vote_tag_id = 1, vote_like = True\<rparr>" False]
  by (simp add: tagged_def Package_by_name_def Tag_get_def Vote_get_def)

subsection \<open>A vote for a tag that is not there\<close>

text \<open>
  C3. Where no package has the given name, or no tag with the given label belongs to a
  package of that name, \<open>add_vote\<close> raises \<open>TaggerapiException\<close> with the message
  "This tag could not be found associated to this package". The session it leaves is the
  one the get-or-create of the user left: the tags with their counters, the votes, the
  ratings and the packages are those it was given.
\<close>

theorem add_vote_not_found:
  assumes "(\<forall>p\<in>set (packages s). pkg_name p \<noteq> pkgname) \<or>
           (\<forall>p\<in>set (packages s). \<forall>t\<in>set (tags s).
              pkg_name p = pkgname \<longrightarrow> \<not> (tag_package_id t = pkg_id p \<and> tag_label t = tag))"
  shows "add_vote s pkgname tag vote ipaddress =
           (Inl (TaggerapiException ''This tag could not be found associated to this package''),
            snd (FASUser_get_or_create s ipaddress))
         \<and> tags (snd (add_vote s pkgname tag vote ipaddress)) = tags s
         \<and> votes (snd (add_vote s pkgname tag vote ipaddress)) = votes s
         \<and> ratings (snd (add_vote s pkgname tag vote ipaddress)) = ratings s
         \<and> packages (snd (add_vote s pkgname tag vote ipaddress)) = packages s"
proof -
  obtain user s1 where goc: "FASUser_get_or_create s ipaddress = (user, s1)"
    by (cases "FASUser_get_or_create s ipaddress")
  have s1: "s1 = snd (FASUser_get_or_create s ipaddress)" using goc by simp
  have pk: "Package_by_name s1 pkgname = Package_by_name s pkgname"
    unfolding s1 by (rule Package_by_name_cong) simp
  have tg: "\<And>i. Tag_get s1 i tag = Tag_get s i tag"
    unfolding s1 by (rule Tag_get_cong) simp
  have fail: "(case Package_by_name s1 pkgname of Inl e \<Rightarrow> Inl e
                | Inr package \<Rightarrow> Tag_get s1 (pkg_id package) tag) = Inl NoResultFound"
  proof (cases "Package_by_name s pkgname")
    case (Inl e)
    then have "e = NoResultFound" by (simp add: Package_by_name_Inl)
    with Inl show ?thesis using pk by simp
  next
    case (Inr p)
    then have "p \<in> set (packages s)" "pkg_name p = pkgname"
      by (auto dest: Package_by_name_Inr)
    with assms have "\<forall>t\<in>set (tags s). \<not> (tag_package_id t = pkg_id p \<and> tag_label t = tag)"
      by blast
    then have "Tag_get s (pkg_id p) tag = Inl NoResultFound"
      by (simp add: Tag_get_Inl)
    then show ?thesis using Inr pk tg by simp
  qed
  have "add_vote s pkgname tag vote ipaddress = (Inl (TaggerapiException tag_not_found), s1)"
    unfolding add_vote_def using goc fail by simp
  then show ?thesis
    unfolding s1 by (simp add: tag_not_found_def)
qed

theorem add_vote_not_found_witness:
  "add_vote tagged ''mattd'' ''editor'' False ''10.0.0.2'' =
     (Inl (TaggerapiException ''This tag could not be found associated to this package''),
      tagged\<lparr>users := users tagged @ [\<lparr>user_id = 2, user_ipaddress = ''10.0.0.2''\<rparr>]\<rparr>)"
  using add_vote_not_found [of tagged "''mattd''" "''editor''" False "''10.0.0.2''"]
  by (simp add: tagged_def FASUser_get_or_create_def next_id_def Let_def numeral_2_eq_2)

subsection \<open>Voting again with the same polarity\<close>

text \<open>
  C4. Where the requesting user is in the store, the package and the tag resolve, and the
  vote found for that user and tag has the polarity given, \<open>add_vote\<close> returns the
  message "Your vote on the tag ... for the package ... did not changed", with the tag and
  the package name in double quotes, and leaves the session exactly as it was: no counter, vote,
  rating or any other row changes. A second call from the state the first one left gives
  the same outcome and the same state.
\<close>

theorem add_vote_same:
  assumes "find (\<lambda>u. user_ipaddress u = ipaddress) (users s) = Some user"
    and "Package_by_name s pkgname = Inr package"
    and "Tag_get s (pkg_id package) tag = Inr tagobj"
    and "Vote_get s (user_id user) (tag_id tagobj) = Inr voteobj"
    and "vote_like voteobj = vote"
  shows \<open>add_vote s pkgname tag vote ipaddress =
           (Inr (''Your vote on the tag "'' @ tag @ ''" for the package "'' @ pkgname @ ''" did not changed''), s)
       \<and> add_vote (snd (add_vote s pkgname tag vote ipaddress)) pkgname tag vote ipaddress =
           (Inr (''Your vote on the tag "'' @ tag @ ''" for the package "'' @ pkgname @ ''" did not changed''), s)\<close>
proof -
  have \<open>add_vote s pkgname tag vote ipaddress =
           (Inr (''Your vote on the tag "'' @ tag @ ''" for the package "'' @ pkgname @ ''" did not changed''), s)\<close>
    unfolding add_vote_def using assms by (simp add: goc_found vote_not_changed_def)
  then show ?thesis by simp
qed

theorem add_vote_same_witness:
  \<open>add_vote tagged ''mattd'' ''daemon'' True ''10.0.0.1'' =
     (Inr ''Your vote on the tag "daemon" for the package "mattd" did not changed'', tagged)\<close>
  using add_vote_same [of "''10.0.0.1''" tagged "\<lparr>user_id = 1, user_ipaddress = ''10.0.0.1''\<rparr>"
      "''mattd''" "\<lparr>pkg_id = 1, pkg_name = ''mattd'', pkg_summary = ''Matt Daemon''\<rparr>"
      "''daemon''" "\<lparr>tag_id = 1, tag_package_id = 1, tag_label = ''daemon'', tag_like = 1, tag_dislike = 0\<rparr>"
      "\<lparr>vote_id = 1, vote_user_id = 1, vote_tag_id = 1, vote_like = True\<rparr>" True]
  by (simp add: tagged_def Package_by_name_def Tag_get_def Vote_get_def)

subsection \<open>Tagging again with a label that is there\<close>

text \<open>The state after \<open>n\<close> calls of \<open>add_tag\<close> with the same arguments.\<close>

lemma add_tag_repeat_inv:
  fixes s :: session and pkgname tag ipaddress :: string
  assumes pk: "Package_by_name s pkgname = Inr package"
    and tg: "Tag_get s (pkg_id package) tag = Inr tagobj"
  defines "f \<equiv> \<lambda>x. snd (add_tag x pkgname tag ipaddress)"
  defines "uid \<equiv> user_id (fst (FASUser_get_or_create s ipaddress))"
  shows "Package_by_name ((f ^^ n) s) pkgname = Inr package
       \<and> Tag_get ((f ^^ n) s) (pkg_id package) tag
           = Inr (tagobj\<lparr>tag_like := tag_like tagobj + int n\<rparr>)
       \<and> user_id (fst (FASUser_get_or_create ((f ^^ n) s) ipaddress)) = uid
       \<and> length (votes ((f ^^ n) s)) = length (votes s) + n
       \<and> length (filter (\<lambda>v. vote_user_id v = uid \<and> vote_tag_id v = tag_id tagobj \<and> vote_like v)
                   (votes ((f ^^ n) s)))
         = length (filter (\<lambda>v. vote_user_id v = uid \<and> vote_tag_id v = tag_id tagobj \<and> vote_like v)
                     (votes s)) + n"
proof (induction n)
  case 0
  show ?case using pk tg by (simp add: uid_def)
next
  case (Suc n)
  let ?s = "(f ^^ n) s"
  let ?t = "tagobj\<lparr>tag_like := tag_like tagobj + int n\<rparr>"
  from Suc.IH have pkn: "Package_by_name ?s pkgname = Inr package"
    and tgn: "Tag_get ?s (pkg_id package) tag = Inr ?t"
    and un: "user_id (fst (FASUser_get_or_create ?s ipaddress)) = uid"
    and ln: "length (votes ?s) = length (votes s) + n"
    and cn: "length (filter (\<lambda>v. vote_user_id v = uid \<and> vote_tag_id v = tag_id tagobj \<and> vote_like v)
                   (votes ?s))
         = length (filter (\<lambda>v. vote_user_id v = uid \<and> vote_tag_id v = tag_id tagobj \<and> vote_like v)
                     (votes s)) + n"
    by simp_all
  obtain user s1 where goc: "FASUser_get_or_create ?s ipaddress = (user, s1)"
    by (cases "FASUser_get_or_create ?s ipaddress")
  have u: "user_id user = uid" using un goc by simp
  have p1: "packages s1 = packages ?s"
    using goc_tables(1) [of ?s ipaddress] goc by simp
  let ?s' = "f ?s"
  have step: "?s' =
      s1\<lparr>tags := map (\<lambda>r. if tag_id r = tag_id ?t then ?t\<lparr>tag_like := tag_like ?t + 1\<rparr> else r)
                    (tags ?s),
         votes := votes ?s @
           [\<lparr>vote_id = next_id (map vote_id (votes ?s)), vote_user_id = user_id user,
             vote_tag_id = tag_id ?t, vote_like = True\<rparr>]\<rparr>"
    using add_tag_step [OF pkn tgn, where ipaddress = ipaddress] goc by (simp add: f_def)
  have tags': "tags ?s' =
      map (\<lambda>r. if tag_id r = tag_id ?t then ?t\<lparr>tag_like := tag_like ?t + 1\<rparr> else r) (tags ?s)"
    and votes': "votes ?s' = votes ?s @
           [\<lparr>vote_id = next_id (map vote_id (votes ?s)), vote_user_id = user_id user,
             vote_tag_id = tag_id ?t, vote_like = True\<rparr>]"
    and packages': "packages ?s' = packages ?s"
    and users': "users ?s' = users s1"
    unfolding step using p1 by simp_all
  have a: "Package_by_name ?s' pkgname = Inr package"
    using pkn Package_by_name_cong [OF packages'] by simp
  have "Tag_get ?s' (pkg_id package) tag = Inr (?t\<lparr>tag_like := tag_like ?t + 1\<rparr>)"
    using tgn tags' by (rule Tag_get_after_flush)
  then have b: "Tag_get ?s' (pkg_id package) tag
           = Inr (tagobj\<lparr>tag_like := tag_like tagobj + int (Suc n)\<rparr>)"
    by (simp add: add.assoc)
  have "FASUser_get_or_create ?s' ipaddress = (user, ?s')"
    using goc users' by (rule goc_again)
  then have c: "user_id (fst (FASUser_get_or_create ?s' ipaddress)) = uid"
    using u by simp
  have d: "length (votes ?s') = length (votes s) + Suc n"
    unfolding votes' using ln by simp
  have e: "length (filter (\<lambda>v. vote_user_id v = uid \<and> vote_tag_id v = tag_id tagobj \<and> vote_like v)
                   (votes ?s'))
         = length (filter (\<lambda>v. vote_user_id v = uid \<and> vote_tag_id v = tag_id tagobj \<and> vote_like v)
                     (votes s)) + Suc n"
    unfolding votes' using cn u by simp
  have "(f ^^ Suc n) s = ?s'" by simp
  with a b c d e show ?case by presburger
qed

text \<open>
  C5. Where the package exists and has a tag with the given label, \<open>add_tag\<close> raises the
  like counter of that tag by 1 and appends a like vote of the requesting user on that tag,
  whether or not that user has voted on it before: no lookup of votes takes place. After
  \<open>n\<close> calls with the same arguments the tag's like counter is \<open>n\<close> higher, its dislike
  counter is as it was, and the vote table holds \<open>n\<close> more rows, each a like vote of that
  user on that tag.
\<close>

theorem add_tag_repeat:
  assumes "Package_by_name s pkgname = Inr package"
    and "Tag_get s (pkg_id package) tag = Inr tagobj"
  shows "Tag_get (((\<lambda>x. snd (add_tag x pkgname tag ipaddress)) ^^ n) s) (pkg_id package) tag
           = Inr (tagobj\<lparr>tag_like := tag_like tagobj + int n\<rparr>)
       \<and> length (votes (((\<lambda>x. snd (add_tag x pkgname tag ipaddress)) ^^ n) s))
           = length (votes s) + n
       \<and> length (filter (\<lambda>v. vote_user_id v = user_id (fst (FASUser_get_or_create s ipaddress))
                              \<and> vote_tag_id v = tag_id tagobj \<and> vote_like v)
                   (votes (((\<lambda>x. snd (add_tag x pkgname tag ipaddress)) ^^ n) s)))
           = length (filter (\<lambda>v. vote_user_id v = user_id (fst (FASUser_get_or_create s ipaddress))
                              \<and> vote_tag_id v = tag_id tagobj \<and> vote_like v)
                     (votes s)) + n
       \<and> add_tag s pkgname tag ipaddress =
           (Inr (tag_added tag pkgname),
            (snd (FASUser_get_or_create s ipaddress))
              \<lparr>tags := map (\<lambda>r. if tag_id r = tag_id tagobj
                                  then tagobj\<lparr>tag_like := tag_like tagobj + 1\<rparr> else r) (tags s),
               votes := votes s @
                 [\<lparr>vote_id = next_id (map vote_id (votes s)),
                   vote_user_id = user_id (fst (FASUser_get_or_create s ipaddress)),
                   vote_tag_id = tag_id tagobj, vote_like = True\<rparr>]\<rparr>)"
  using add_tag_repeat_inv [OF assms, where ipaddress = ipaddress and n = n]
    add_tag_step [OF assms, where ipaddress = ipaddress]
  by simp

theorem add_tag_repeat_witness:
  "Tag_get (((\<lambda>x. snd (add_tag x ''mattd'' ''daemon'' ''10.0.0.1'')) ^^ 3) tagged) 1 ''daemon''
     = Inr \<lparr>tag_id = 1, tag_package_id = 1, tag_label = ''daemon'', tag_like = 4, tag_dislike = 0\<rparr>
   \<and> length (filter (\<lambda>v. vote_user_id v = 1 \<and> vote_tag_id v = 1 \<and> vote_like v)
        (votes (((\<lambda>x. snd (add_tag x ''mattd'' ''daemon'' ''10.0.0.1'')) ^^ 3) tagged))) = 4"
proof -
  have p: "Package_by_name tagged ''mattd'' =
             Inr \<lparr>pkg_id = 1, pkg_name = ''mattd'', pkg_summary = ''Matt Daemon''\<rparr>"
    by (simp add: tagged_def Package_by_name_def)
  have t: "Tag_get tagged (pkg_id \<lparr>pkg_id = 1, pkg_name = ''mattd'', pkg_summary = ''Matt Daemon''\<rparr>)
             ''daemon'' =
           Inr \<lparr>tag_id = 1, tag_package_id = 1, tag_label = ''daemon'', tag_like = 1, tag_dislike = 0\<rparr>"
    by (simp add: tagged_def Tag_get_def)
  have u: "user_id (fst (FASUser_get_or_create tagged ''10.0.0.1'')) = 1"
    by (simp add: tagged_def FASUser_get_or_create_def)
  have v: "length (filter (\<lambda>v. vote_user_id v = 1 \<and> vote_tag_id v = 1 \<and> vote_like v) (votes tagged)) = 1"
    by (simp add: tagged_def)
  from add_tag_repeat [OF p t, where ipaddress = "''10.0.0.1''" and n = 3] u v show ?thesis by simp
qed

subsection \<open>Tagging with a new label\<close>

text \<open>
  C6. Where the package exists and has no tag with the given label, \<open>add_tag\<close> appends
  exactly one tag row, with \<open>like = 1\<close> and \<open>dislike = 0\<close>, and exactly one vote row, of
  polarity like, by the requesting user on that tag, and returns the confirmation string
  "Tag ... added to the package ...", with the tag and the package name in double quotes.
  The key of the new tag is none of the keys that were there.
\<close>

theorem add_tag_fresh:
  assumes "Package_by_name s pkgname = Inr package"
    and "\<forall>t\<in>set (tags s). \<not> (tag_package_id t = pkg_id package \<and> tag_label t = tag)"
  shows \<open>add_tag s pkgname tag ipaddress =
           (Inr (''Tag "'' @ tag @ ''" added to the package "'' @ pkgname @ ''"''),
            (snd (FASUser_get_or_create s ipaddress))
              \<lparr>tags := tags s @
                 [\<lparr>tag_id = next_id (map tag_id (tags s)), tag_package_id = pkg_id package,
                   tag_label = tag, tag_like = 1, tag_dislike = 0\<rparr>],
               votes := votes s @
                 [\<lparr>vote_id = next_id (map vote_id (votes s)),
                   vote_user_id = user_id (fst (FASUser_get_or_create s ipaddress)),
                   vote_tag_id = next_id (map tag_id (tags s)), vote_like = True\<rparr>]\<rparr>)
       \<and> next_id (map tag_id (tags s)) \<notin> set (map tag_id (tags s))\<close>
proof -
  obtain user s1 where goc: "FASUser_get_or_create s ipaddress = (user, s1)"
    by (cases "FASUser_get_or_create s ipaddress")
  have s1: "s1 = snd (FASUser_get_or_create s ipaddress)" using goc by simp
  have t1: "tags s1 = tags s" and v1: "votes s1 = votes s" unfolding s1 by simp_all
  have "Tag_get s (pkg_id package) tag = Inl NoResultFound"
    using assms(2) by (simp add: Tag_get_Inl)
  then have tg: "Tag_get s1 (pkg_id package) tag = Inl NoResultFound"
    using Tag_get_cong [OF t1] by simp
  show ?thesis
    unfolding add_tag_def using assms(1) goc tg next_id_fresh [of "map tag_id (tags s)"]
    by (simp add: Tag_create_def Vote_create_def Let_def t1 v1 tag_added_def)
qed

theorem add_tag_fresh_witness:
  \<open>add_tag dev_data ''mattd'' ''daemon'' ''10.0.0.1'' =
     (Inr ''Tag "daemon" added to the package "mattd"'', tagged)\<close>
  using add_tag_fresh [of dev_data "''mattd''"
      "\<lparr>pkg_id = 1, pkg_name = ''mattd'', pkg_summary = ''Matt Daemon''\<rparr>" "''daemon''" "''10.0.0.1''"]
  by (simp add: dev_data_def tagged_def Package_by_name_def FASUser_get_or_create_def next_id_def Let_def)

subsection \<open>The summary of \<open>statistics\<close>\<close>

lemma dict_setitem_fresh:
  "k \<notin> fst ` set d \<Longrightarrow> dict_setitem d k v = d @ [(k, v)]"
  by (induction d) auto

lemma foldl_dict_setitem:
  "distinct (map fst (d @ kvs)) \<Longrightarrow>
     foldl (\<lambda>d (k, v). dict_setitem d k v) d kvs = d @ kvs"
proof (induction kvs arbitrary: d)
  case Nil
  then show ?case by simp
next
  case (Cons kv kvs)
  obtain k v where kv: "kv = (k, v)" by (cases kv)
  from Cons.prems have fresh: "k \<notin> fst ` set d" and d: "distinct (map fst ((d @ [(k, v)]) @ kvs))"
    unfolding kv by auto
  show ?case
    unfolding kv using Cons.IH [OF d] fresh by (simp add: dict_setitem_fresh)
qed

lemma dict_distinct: "distinct (map fst kvs) \<Longrightarrow> dict kvs = kvs"
  unfolding dict_def using foldl_dict_setitem [of "[]" kvs] by simp

lemma count_zero_tags:
  "length (filter (\<lambda>v. v = 0) (map snd (map (\<lambda>p. (pkg_name p, int (length (Package_tags s p)))) ps)))
     = length (filter (\<lambda>p. Package_tags s p = []) ps)"
  by (induction ps) auto

lemma total_over_tagged:
  "sum_list (map (\<lambda>p. int (length (Package_tags s p))) (filter (\<lambda>p. Package_tags s p \<noteq> []) ps))
     = sum_list (map (\<lambda>p. int (length (Package_tags s p))) ps)"
  by (induction ps) auto

lemma count_with_tags:
  "int (length ps) - int (length (filter (\<lambda>p. Package_tags s p = []) ps))
     = int (length (filter (\<lambda>p. Package_tags s p \<noteq> []) ps))"
  using sum_length_filter_compl [of "\<lambda>p. Package_tags s p = []" ps] by simp

text \<open>
  C7. In a store whose package names are unique and whose tags belong to packages of the
  store, \<open>statistics\<close> returns one entry, under the key \<open>summary\<close>, holding six numbers:
  the number of packages, the number of distinct tag labels, the number of packages with
  no tag, the number of packages with at least one tag, the tags per package over all
  packages (0 where there is no package) and the tags per package over the packages that
  have a tag (0 where there is none). No division by zero takes place, and with no package
  in the store all six are 0. For the packages \<open>A\<close> with three tags and \<open>B\<close> with none the
  numbers are 2, 3, 1, 1, 1.5 and 3.0.
\<close>

theorem statistics_summary:
  assumes "distinct (map pkg_name (packages s))"
    and "\<forall>t\<in>set (tags s). tag_package_id t \<in> set (map pkg_id (packages s))"
  shows "statistics s =
           [(''summary'',
             [(''total_packages'', PyInt (int (length (packages s)))),
              (''total_unique_tags'', PyInt (int (card (tag_label ` set (tags s))))),
              (''no_tags'',
                 PyInt (int (length (filter (\<lambda>p. Package_tags s p = []) (packages s))))),
              (''with_tags'',
                 PyInt (int (length (filter (\<lambda>p. Package_tags s p \<noteq> []) (packages s))))),
              (''tags_per_package'',
                 if packages s = [] then PyInt 0
                 else PyFloat (real_of_int (sum_list (map (\<lambda>p. int (length (Package_tags s p)))
                                                      (packages s)))
                               / real (length (packages s)))),
              (''tags_per_package_no_zeroes'',
                 if filter (\<lambda>p. Package_tags s p \<noteq> []) (packages s) = [] then PyInt 0
                 else PyFloat (real_of_int (sum_list (map (\<lambda>p. int (length (Package_tags s p)))
                                  (filter (\<lambda>p. Package_tags s p \<noteq> []) (packages s))))
                               / real (length (filter (\<lambda>p. Package_tags s p \<noteq> [])
                                                 (packages s)))))])]
       \<and> (packages s = [] \<longrightarrow>
            statistics s =
              [(''summary'',
                [(''total_packages'', PyInt 0), (''total_unique_tags'', PyInt 0),
                 (''no_tags'', PyInt 0), (''with_tags'', PyInt 0),
                 (''tags_per_package'', PyInt 0),
                 (''tags_per_package_no_zeroes'', PyInt 0)])])"
proof -
  let ?raw = "map (\<lambda>p. (pkg_name p, int (length (Package_tags s p)))) (packages s)"
  have "distinct (map fst ?raw)"
    using assms(1) by (simp add: comp_def)
  then have raw: "dict ?raw = ?raw"
    by (rule dict_distinct)
  have main: "statistics s =
           [(''summary'',
             [(''total_packages'', PyInt (int (length (packages s)))),
              (''total_unique_tags'', PyInt (int (card (tag_label ` set (tags s))))),
              (''no_tags'',
                 PyInt (int (length (filter (\<lambda>p. Package_tags s p = []) (packages s))))),
              (''with_tags'',
                 PyInt (int (length (filter (\<lambda>p. Package_tags s p \<noteq> []) (packages s))))),
              (''tags_per_package'',
                 if packages s = [] then PyInt 0
                 else PyFloat (real_of_int (sum_list (map (\<lambda>p. int (length (Package_tags s p)))
                                                      (packages s)))
                               / real (length (packages s)))),
              (''tags_per_package_no_zeroes'',
                 if filter (\<lambda>p. Package_tags s p \<noteq> []) (packages s) = [] then PyInt 0
                 else PyFloat (real_of_int (sum_list (map (\<lambda>p. int (length (Package_tags s p)))
                                  (filter (\<lambda>p. Package_tags s p \<noteq> []) (packages s))))
                               / real (length (filter (\<lambda>p. Package_tags s p \<noteq> [])
                                                 (packages s)))))])]"
    unfolding statistics_def Package_all_def Tag_count_unique_label_def Let_def raw
      length_map count_zero_tags count_with_tags total_over_tagged
    by (simp add: length_remdups_card_conv)
  have "packages s = [] \<Longrightarrow> tags s = []"
    using assms(2) by (cases "tags s") auto
  then show ?thesis using main by auto
qed

theorem statistics_summary_witness:
  "statistics three_and_none =
     [(''summary'',
       [(''total_packages'', PyInt 2), (''total_unique_tags'', PyInt 3),
        (''no_tags'', PyInt 1), (''with_tags'', PyInt 1),
        (''tags_per_package'', PyFloat (3 / 2)),
        (''tags_per_package_no_zeroes'', PyFloat 3)])]
   \<and> statistics empty_store =
     [(''summary'',
       [(''total_packages'', PyInt 0), (''total_unique_tags'', PyInt 0),
        (''no_tags'', PyInt 0), (''with_tags'', PyInt 0),
        (''tags_per_package'', PyInt 0),
        (''tags_per_package_no_zeroes'', PyInt 0)])]"
proof -
  have a: "distinct (map pkg_name (packages three_and_none))"
    and b: "\<forall>t\<in>set (tags three_and_none). tag_package_id t \<in> set (map pkg_id (packages three_and_none))"
    by (simp_all add: three_and_none_def)
  have c: "distinct (map pkg_name (packages empty_store))"
    and d: "\<forall>t\<in>set (tags empty_store). tag_package_id t \<in> set (map pkg_id (packages empty_store))"
    and e: "packages empty_store = []"
    by (simp_all add: empty_store_def)
  from statistics_summary [OF a b, THEN conjunct1]
  have "statistics three_and_none =
     [(''summary'',
       [(''total_packages'', PyInt 2), (''total_unique_tags'', PyInt 3),
        (''no_tags'', PyInt 1), (''with_tags'', PyInt 1),
        (''tags_per_package'', PyFloat (3 / 2)),
        (''tags_per_package_no_zeroes'', PyFloat 3)])]"
    by (simp add: three_and_none_def Package_tags_def)
  moreover from statistics_summary [OF c d, THEN conjunct2] e
  have "statistics empty_store =
     [(''summary'',
       [(''total_packages'', PyInt 0), (''total_unique_tags'', PyInt 0),
        (''no_tags'', PyInt 0), (''with_tags'', PyInt 0),
        (''tags_per_package'', PyInt 0),
        (''tags_per_package_no_zeroes'', PyInt 0)])]"
    by simp
  ultimately show ?thesis by simp
qed

subsection \<open>A package that is not there\<close>

text \<open>
  C8. On a package name that is not in the store, \<open>add_tag\<close> and \<open>add_rating\<close> end with
  the store's \<open>NoResultFound\<close>, raised by the package lookup, which no \<open>try\<close> encloses;
  the outcome is no \<open>TaggerapiException\<close>, whatever the message.
\<close>

theorem package_not_found_raw:
  "add_tag dev_data ''nethack'' ''game'' ''10.0.0.1'' = (Inl NoResultFound, dev_data) \<and>
   add_rating dev_data ''nethack'' 5 ''10.0.0.1'' = (Inl NoResultFound, dev_data) \<and>
   (\<forall>m. fst (add_tag dev_data ''nethack'' ''game'' ''10.0.0.1'') \<noteq> Inl (TaggerapiException m))"
  by (simp add: add_tag_def add_rating_def dev_data_def Package_by_name_def)

subsection \<open>Ratings\<close>

text \<open>
  C9. Where the package exists, \<open>add_rating\<close> appends one rating row with the user (created
  if need be), the package and the value, and leaves the rows that were there as they
  were. Two calls in a row for the same user and package leave two rows with different
  primary keys, the first value in the first and the second value in the second.
\<close>

theorem add_rating_twice:
  assumes "Package_by_name s pkgname = Inr package"
  shows "add_rating s pkgname r1 ipaddress =
           (Inr (rating_added r1 pkgname),
            (snd (FASUser_get_or_create s ipaddress))
              \<lparr>ratings := ratings s @
                 [\<lparr>rating_id = next_id (map rating_id (ratings s)),
                   rating_package_id = pkg_id package,
                   rating_user_id = user_id (fst (FASUser_get_or_create s ipaddress)),
                   rating_value = r1\<rparr>]\<rparr>)
       \<and> ratings (snd (add_rating (snd (add_rating s pkgname r1 ipaddress)) pkgname r2 ipaddress)) =
           ratings s @
             [\<lparr>rating_id = next_id (map rating_id (ratings s)),
               rating_package_id = pkg_id package,
               rating_user_id = user_id (fst (FASUser_get_or_create s ipaddress)),
               rating_value = r1\<rparr>,
              \<lparr>rating_id = next_id (map rating_id (ratings s) @ [next_id (map rating_id (ratings s))]),
               rating_package_id = pkg_id package,
               rating_user_id = user_id (fst (FASUser_get_or_create s ipaddress)),
               rating_value = r2\<rparr>]
       \<and> next_id (map rating_id (ratings s))
           < next_id (map rating_id (ratings s) @ [next_id (map rating_id (ratings s))])
       \<and> next_id (map rating_id (ratings s)) \<notin> set (map rating_id (ratings s))"
proof -
  obtain user s1 where goc: "FASUser_get_or_create s ipaddress = (user, s1)"
    by (cases "FASUser_get_or_create s ipaddress")
  let ?row1 = "\<lparr>rating_id = next_id (map rating_id (ratings s)),
                 rating_package_id = pkg_id package, rating_user_id = user_id user,
                 rating_value = r1\<rparr>"
  let ?s' = "s1\<lparr>ratings := ratings s @ [?row1]\<rparr>"
  have one: "add_rating s pkgname r1 ipaddress = (Inr (rating_added r1 pkgname), ?s')"
    using add_rating_step [OF assms, of r1 ipaddress] goc by simp
  have "packages s1 = packages s" using goc_tables(1) [of s ipaddress] goc by simp
  then have pk: "Package_by_name ?s' pkgname = Inr package"
    using assms Package_by_name_cong [of ?s' s pkgname] by simp
  have goc': "FASUser_get_or_create ?s' ipaddress = (user, ?s')"
    by (rule goc_again [OF goc]) simp
  have two: "add_rating ?s' pkgname r2 ipaddress =
      (Inr (rating_added r2 pkgname),
       ?s'\<lparr>ratings := ratings ?s' @
          [\<lparr>rating_id = next_id (map rating_id (ratings ?s')),
            rating_package_id = pkg_id package, rating_user_id = user_id user,
            rating_value = r2\<rparr>]\<rparr>)"
    using add_rating_step [OF pk, of r2 ipaddress] goc' by simp
  have lt: "next_id (map rating_id (ratings s))
           < next_id (map rating_id (ratings s) @ [next_id (map rating_id (ratings s))])"
    by (rule next_id_greater) simp
  show ?thesis
    using one two goc lt next_id_fresh [of "map rating_id (ratings s)"] by simp
qed

theorem add_rating_twice_witness:
  "ratings (snd (add_rating (snd (add_rating dev_data ''mattd'' 5 ''10.0.0.1'')) ''mattd'' 2 ''10.0.0.1'')) =
     [\<lparr>rating_id = 1, rating_package_id = 1, rating_user_id = 1, rating_value = 5\<rparr>,
      \<lparr>rating_id = 2, rating_package_id = 1, rating_user_id = 1, rating_value = 2\<rparr>]"
proof -
  have h: "Package_by_name dev_data ''mattd'' =
             Inr \<lparr>pkg_id = 1, pkg_name = ''mattd'', pkg_summary = ''Matt Daemon''\<rparr>"
    by (simp add: dev_data_def Package_by_name_def)
  from add_rating_twice [OF h, of 5 "''10.0.0.1''" 2, THEN conjunct2, THEN conjunct1]
  have "ratings (snd (add_rating (snd (add_rating dev_data ''mattd'' 5 ''10.0.0.1''))
                        ''mattd'' 2 ''10.0.0.1'')) =
        ratings dev_data @
          [\<lparr>rating_id = next_id (map rating_id (ratings dev_data)),
            rating_package_id = 1,
            rating_user_id = user_id (fst (FASUser_get_or_create dev_data ''10.0.0.1'')),
            rating_value = 5\<rparr>,
           \<lparr>rating_id = next_id (map rating_id (ratings dev_data) @
                                  [next_id (map rating_id (ratings dev_data))]),
            rating_package_id = 1,
            rating_user_id = user_id (fst (FASUser_get_or_create dev_data ''10.0.0.1'')),
            rating_value = 2\<rparr>]"
    by simp
  then show ?thesis
    by (simp add: dev_data_def FASUser_get_or_create_def next_id_def Let_def numeral_2_eq_2)
qed

subsection \<open>No counter below zero\<close>

text \<open>
  C10. In a store where the counters of every tag equal the numbers of its votes of each
  polarity, no tag has a counter below zero after \<open>add_vote\<close>: the decrement of the flip
  branch runs only when a vote of the old polarity is there, so that counter was at
  least 1.
\<close>

theorem add_vote_nonneg:
  assumes "counters_inv s"
  shows "\<forall>t\<in>set (tags (snd (add_vote s pkgname tag vote ipaddress))).
           0 \<le> tag_like t \<and> 0 \<le> tag_dislike t"
proof
  let ?s' = "snd (add_vote s pkgname tag vote ipaddress)"
  fix r' assume r': "r' \<in> set (tags ?s')"
  have old: "\<And>r. r \<in> set (tags s) \<Longrightarrow> 0 \<le> tag_like r \<and> 0 \<le> tag_dislike r"
    using assms by (simp add: counters_inv_def vote_count_nonneg)
  from add_vote_shape [of s pkgname tag vote ipaddress]
  consider "tags ?s' = tags s \<and> votes ?s' = votes s"
    | t v where "t \<in> set (tags s)" "v \<in> set (votes s)" "vote_tag_id v = tag_id t"
        "tags ?s' = map (\<lambda>r. if tag_id r = tag_id t
                                 then (if vote_like v
                                       then t\<lparr>tag_like := tag_like t - 1, tag_dislike := tag_dislike t + 1\<rparr>
                                       else t\<lparr>tag_dislike := tag_dislike t - 1, tag_like := tag_like t + 1\<rparr>)
                                 else r) (tags s)"
    | t where "t \<in> set (tags s)"
        "tags ?s' = map (\<lambda>r. if tag_id r = tag_id t
                                 then (if vote then t\<lparr>tag_like := tag_like t + 1\<rparr>
                                       else t\<lparr>tag_dislike := tag_dislike t + 1\<rparr>)
                                 else r) (tags s)"
    by blast
  then show "0 \<le> tag_like r' \<and> 0 \<le> tag_dislike r'"
  proof cases
    case 1
    then show ?thesis using r' old by simp
  next
    case 2
    have eq: "tag_like t = vote_count (votes s) (tag_id t) True"
        "tag_dislike t = vote_count (votes s) (tag_id t) False"
      using assms 2(1) by (simp_all add: counters_inv_def)
    have ge: "1 \<le> vote_count (votes s) (tag_id t) (vote_like v)"
      using 2(2) 2(3) by (rule vote_count_member) simp
    have dec: "vote_like v \<Longrightarrow> 1 \<le> tag_like t" "\<not> vote_like v \<Longrightarrow> 1 \<le> tag_dislike t"
      using ge eq by auto
    from r' obtain r where r: "r \<in> set (tags s)"
      "r' = (if tag_id r = tag_id t
             then (if vote_like v
                   then t\<lparr>tag_like := tag_like t - 1, tag_dislike := tag_dislike t + 1\<rparr>
                   else t\<lparr>tag_dislike := tag_dislike t - 1, tag_like := tag_like t + 1\<rparr>)
             else r)"
      unfolding 2(4) set_map by blast
    show ?thesis
      using r old [OF r(1)] old [OF 2(1)] dec by (auto split: if_splits)
  next
    case 3
    from r' obtain r where r: "r \<in> set (tags s)"
      "r' = (if tag_id r = tag_id t
             then (if vote then t\<lparr>tag_like := tag_like t + 1\<rparr>
                   else t\<lparr>tag_dislike := tag_dislike t + 1\<rparr>)
             else r)"
      unfolding 3(2) set_map by blast
    show ?thesis
      using r old [OF r(1)] old [OF 3(1)] by (auto split: if_splits)
  qed
qed

theorem add_vote_nonneg_witness:
  "0 \<le> tag_like (hd (tags (snd (add_vote tagged ''mattd'' ''daemon'' False ''10.0.0.1''))))
   \<and> 0 \<le> tag_dislike (hd (tags (snd (add_vote tagged ''mattd'' ''daemon'' False ''10.0.0.1''))))"
proof -
  have inv: "counters_inv tagged"
    by (simp add: counters_inv_def vote_count_def tagged_def)
  have "tags (snd (add_vote tagged ''mattd'' ''daemon'' False ''10.0.0.1'')) \<noteq> []"
    by (simp add: add_vote_def tagged_def FASUser_get_or_create_def Package_by_name_def
        Tag_get_def Vote_get_def Tag_flush_def Vote_flush_def)
  then have "hd (tags (snd (add_vote tagged ''mattd'' ''daemon'' False ''10.0.0.1'')))
      \<in> set (tags (snd (add_vote tagged ''mattd'' ''daemon'' False ''10.0.0.1'')))"
    by (rule hd_in_set)
  with add_vote_nonneg [OF inv] show ?thesis by blast
qed

end
